theory Spec2Isabelle
  imports Complex_Main
begin

section \<open>The geometry core of validate\_geometry.py\<close>

text \<open>
  The embedding follows \<^verbatim>\<open>src/validate_geometry.py\<close> function by function.
  Python's \<^verbatim>\<open>float\<close> is modelled by \<^typ>\<open>real\<close>. This is an idealisation:
  arithmetic is exact, and rounding, overflow and NaN are absent, so a property that rests
  on an arithmetic identity can hold here and fail on the doubles of the program. The
  theorems of this theory are therefore limited to
  \<^item> properties of the control flow of the split, which hold whatever values the
    arithmetic returns (they use of the arithmetic only that \<open>0\<close> is below the tolerance,
    so that the guarded division has a non-zero divisor), and
  \<^item> evaluations at concrete inputs on which the program, computing with doubles, takes
    the same branches and returns the same lists and areas as the model.

  The two operations of the source that raise on a number are modelled as fallible: a
  division whose divisor is a computed value (\<^verbatim>\<open>ZeroDivisionError\<close>) and
  \<^verbatim>\<open>math.sqrt\<close> (\<^verbatim>\<open>ValueError\<close> on a negative argument). The division by
  the literal \<^verbatim>\<open>2.0\<close> cannot raise and is a plain division.
\<close>

subsection \<open>Errors and fallible arithmetic\<close>

datatype error = ZeroDivisionError | ValueError

definition py_div :: "real \<Rightarrow> real \<Rightarrow> error + real" where
  "py_div a b = (if b = 0 then Inl ZeroDivisionError else Inr (a / b))"


definition EPSILON :: real where
  "EPSILON = 1 / 10000"

subsection \<open>Vector2\<close>

record Vector2 =
  x :: real
  y :: real

definition Vector2_sub :: "Vector2 \<Rightarrow> Vector2 \<Rightarrow> Vector2" where
  "Vector2_sub self other = \<lparr>x = x self - x other, y = y self - y other\<rparr>"

definition dot :: "Vector2 \<Rightarrow> Vector2 \<Rightarrow> real" where
  "dot self other = x self * x other + y self * y other"


subsection \<open>Point classification and segment/line intersection\<close>

definition point_side_of_line :: "Vector2 \<Rightarrow> Vector2 \<Rightarrow> Vector2 \<Rightarrow> int" where
  "point_side_of_line point line_point line_normal =
     (let to_point = Vector2_sub point line_point;
          distance = dot to_point line_normal
      in if \<bar>distance\<bar> < EPSILON then 0
         else if distance > 0 then 1 else - 1)"

definition segment_line_intersection ::
  "Vector2 \<Rightarrow> Vector2 \<Rightarrow> Vector2 \<Rightarrow> Vector2 \<Rightarrow> error + Vector2 option" where
  "segment_line_intersection seg_start seg_end line_point line_normal =
     (let seg_dir = Vector2_sub seg_end seg_start;
          denominator = dot seg_dir line_normal
      in if \<bar>denominator\<bar> < EPSILON then Inr None
         else (case py_div (dot (Vector2_sub line_point seg_start) line_normal) denominator of
                 Inl e \<Rightarrow> Inl e
               | Inr t \<Rightarrow>
                   if t < - EPSILON \<or> t > 1 + EPSILON then Inr None
                   else (let t_clamped = max 0 (min 1 t)
                         in Inr (Some \<lparr>x = x seg_start + x seg_dir * t_clamped,
                                        y = y seg_start + y seg_dir * t_clamped\<rparr>))))"

subsection \<open>Area\<close>

text \<open>
  The loop runs over \<^verbatim>\<open>range(n)\<close> and reads \<^verbatim>\<open>vertices[i]\<close> and
  \<^verbatim>\<open>vertices[(i + 1) % n]\<close>; both indices are below \<open>n\<close>, so no read is out of range.
\<close>

definition area_step :: "Vector2 list \<Rightarrow> nat \<Rightarrow> real \<Rightarrow> real" where
  "area_step vertices i area =
     (let n = length vertices;
          j = (i + 1) mod n;
          area1 = area + x (vertices ! i) * y (vertices ! j)
      in area1 - x (vertices ! j) * y (vertices ! i))"

definition polygon_area :: "Vector2 list \<Rightarrow> real" where
  "polygon_area vertices =
     (if length vertices < 3 then 0
      else (let n = length vertices;
                area = fold (area_step vertices) [0..<n] 0
            in \<bar>area\<bar> / 2))"

subsection \<open>Splitting a polygon by a line\<close>

record split_result =
  left :: "Vector2 list"
  right :: "Vector2 list"
  intersections :: "Vector2 list"

text \<open>One iteration of the loop of \<^verbatim>\<open>split_polygon_by_line\<close>, at index \<open>i\<close>.\<close>

definition split_step ::
  "Vector2 list \<Rightarrow> Vector2 \<Rightarrow> Vector2 \<Rightarrow> nat \<Rightarrow> split_result \<Rightarrow> error + split_result" where
  "split_step vertices line_point line_normal i st =
     (let n = length vertices;
          current = vertices ! i;
          next_vertex = vertices ! ((i + 1) mod n);
          current_side = point_side_of_line current line_point line_normal;
          next_side = point_side_of_line next_vertex line_point line_normal;
          st1 = (if current_side \<ge> 0 then st\<lparr>left := left st @ [current]\<rparr> else st);
          st2 = (if current_side \<le> 0 then st1\<lparr>right := right st1 @ [current]\<rparr> else st1)
      in if current_side * next_side < 0 then
           (case segment_line_intersection current next_vertex line_point line_normal of
              Inl e \<Rightarrow> Inl e
            | Inr None \<Rightarrow> Inr st2
            | Inr (Some intersection) \<Rightarrow>
                Inr \<lparr>left = left st2 @ [intersection],
                     right = right st2 @ [intersection],
                     intersections = intersections st2 @ [intersection]\<rparr>)
         else Inr st2)"

fun split_loop ::
  "Vector2 list \<Rightarrow> Vector2 \<Rightarrow> Vector2 \<Rightarrow> nat list \<Rightarrow> split_result \<Rightarrow> error + split_result" where
  "split_loop vertices line_point line_normal [] st = Inr st"
| "split_loop vertices line_point line_normal (i # rest) st =
     (case split_step vertices line_point line_normal i st of
        Inl e \<Rightarrow> Inl e
      | Inr st' \<Rightarrow> split_loop vertices line_point line_normal rest st')"

definition split_polygon_by_line ::
  "Vector2 list \<Rightarrow> Vector2 \<Rightarrow> Vector2 \<Rightarrow> error + split_result" where
  "split_polygon_by_line vertices line_point line_normal =
     (if length vertices < 3 then Inr \<lparr>left = [], right = [], intersections = []\<rparr>
      else split_loop vertices line_point line_normal [0..<length vertices]
             \<lparr>left = [], right = [], intersections = []\<rparr>)"

subsection \<open>Fixtures\<close>



section \<open>Properties\<close>

subsection \<open>The tolerance, the side classification and the guarded division\<close>

lemma EPSILON_pos: "0 < EPSILON"
  by (simp add: EPSILON_def)




text \<open>
  The division of \<open>segment_line_intersection\<close> is reached only when the absolute value of
  the divisor is not below the tolerance, so the divisor is not zero and the call does not
  raise: it returns a point or no intersection.
\<close>

lemma segment_line_intersection_total:
  "\<exists>r. segment_line_intersection s e Q N = Inr r"
  using EPSILON_pos
  by (auto simp add: segment_line_intersection_def Let_def py_div_def)

subsection \<open>The split loop\<close>

text \<open>
  One iteration never raises, only appends to the three sequences, and puts a boundary
  vertex into both \<open>left\<close> and \<open>right\<close>; this holds whether or not the call on a
  crossing edge returns a point.
\<close>

lemma split_step_ok:
  "\<exists>st'. split_step vs Q N i st = Inr st'
     \<and> set (left st) \<subseteq> set (left st') \<and> set (right st) \<subseteq> set (right st')
     \<and> (point_side_of_line (vs ! i) Q N = 0 \<longrightarrow>
           vs ! i \<in> set (left st') \<and> vs ! i \<in> set (right st'))"
proof -
  from segment_line_intersection_total obtain r where
    r: "segment_line_intersection (vs ! i) (vs ! ((i + 1) mod length vs)) Q N = Inr r" ..
  show ?thesis
  proof (cases r)
    case None
    with r show ?thesis by (auto simp add: split_step_def Let_def)
  next
    case (Some p)
    with r show ?thesis by (auto simp add: split_step_def Let_def)
  qed
qed

lemma split_loop_ok:
  "\<exists>st'. split_loop vs Q N idxs st = Inr st'
     \<and> set (left st) \<subseteq> set (left st') \<and> set (right st) \<subseteq> set (right st')
     \<and> (\<forall>i \<in> set idxs. point_side_of_line (vs ! i) Q N = 0 \<longrightarrow>
           vs ! i \<in> set (left st') \<and> vs ! i \<in> set (right st'))"
proof (induction idxs arbitrary: st)
  case Nil
  show ?case by simp
next
  case (Cons i rest)
  from split_step_ok [of vs Q N i st] obtain st1 where
    s1: "split_step vs Q N i st = Inr st1"
    and l1: "set (left st) \<subseteq> set (left st1)" and r1: "set (right st) \<subseteq> set (right st1)"
    and b1: "point_side_of_line (vs ! i) Q N = 0 \<longrightarrow>
           vs ! i \<in> set (left st1) \<and> vs ! i \<in> set (right st1)"
    by blast
  from Cons.IH [of st1] obtain st2 where
    s2: "split_loop vs Q N rest st1 = Inr st2"
    and l2: "set (left st1) \<subseteq> set (left st2)" and r2: "set (right st1) \<subseteq> set (right st2)"
    and b2: "\<forall>i \<in> set rest. point_side_of_line (vs ! i) Q N = 0 \<longrightarrow>
           vs ! i \<in> set (left st2) \<and> vs ! i \<in> set (right st2)"
    by blast
  have "split_loop vs Q N (i # rest) st = Inr st2"
    using s1 s2 by simp
  moreover have "set (left st) \<subseteq> set (left st2)" "set (right st) \<subseteq> set (right st2)"
    using l1 l2 r1 r2 by auto
  moreover have "\<forall>k \<in> set (i # rest). point_side_of_line (vs ! k) Q N = 0 \<longrightarrow>
           vs ! k \<in> set (left st2) \<and> vs ! k \<in> set (right st2)"
    using b1 b2 l2 r2 by auto
  ultimately show ?case by blast
qed

lemma split_loop_all_pos:
  assumes "\<forall>v \<in> set vs. point_side_of_line v Q N = 1"
    and "\<forall>i \<in> set idxs. i < length vs"
  shows "split_loop vs Q N idxs st = Inr (st\<lparr>left := left st @ map ((!) vs) idxs\<rparr>)"
  using assms(2)
proof (induction idxs arbitrary: st)
  case Nil
  show ?case by simp
next
  case (Cons i rest)
  then have i: "i < length vs" by simp
  then have "(i + 1) mod length vs < length vs" by (intro mod_less_divisor) auto
  with i assms(1) have "point_side_of_line (vs ! i) Q N = 1"
    "point_side_of_line (vs ! ((i + 1) mod length vs)) Q N = 1"
    by (simp_all only: nth_mem)
  then have "split_step vs Q N i st = Inr (st\<lparr>left := left st @ [vs ! i]\<rparr>)"
    by (simp add: split_step_def Let_def)
  with Cons show ?case by simp
qed

lemma split_loop_all_neg:
  assumes "\<forall>v \<in> set vs. point_side_of_line v Q N = - 1"
    and "\<forall>i \<in> set idxs. i < length vs"
  shows "split_loop vs Q N idxs st = Inr (st\<lparr>right := right st @ map ((!) vs) idxs\<rparr>)"
  using assms(2)
proof (induction idxs arbitrary: st)
  case Nil
  show ?case by simp
next
  case (Cons i rest)
  then have i: "i < length vs" by simp
  then have "(i + 1) mod length vs < length vs" by (intro mod_less_divisor) auto
  with i assms(1) have "point_side_of_line (vs ! i) Q N = - 1"
    "point_side_of_line (vs ! ((i + 1) mod length vs)) Q N = - 1"
    by (simp_all only: nth_mem)
  then have "split_step vs Q N i st = Inr (st\<lparr>right := right st @ [vs ! i]\<rparr>)"
    by (simp add: split_step_def Let_def)
  with Cons show ?case by simp
qed

text \<open>
  Claim C3. For every polygon with at least 3 vertices the split returns a result (it does
  not raise), and every vertex classified 0 against the line is a member of both the
  \<open>left\<close> and the \<open>right\<close> output.
\<close>

theorem boundary_vertex_in_both:
  assumes "3 \<le> length vertices"
  shows "\<exists>r. split_polygon_by_line vertices Q N = Inr r \<and>
           (\<forall>v \<in> set vertices. point_side_of_line v Q N = 0 \<longrightarrow>
              v \<in> set (left r) \<and> v \<in> set (right r))"
proof -
  let ?st0 = "\<lparr>left = [], right = [], intersections = []\<rparr>"
  from split_loop_ok [of vertices Q N "[0..<length vertices]" ?st0] obtain r where
    r: "split_loop vertices Q N [0..<length vertices] ?st0 = Inr r"
    and b: "\<forall>i \<in> set [0..<length vertices]. point_side_of_line (vertices ! i) Q N = 0 \<longrightarrow>
           vertices ! i \<in> set (left r) \<and> vertices ! i \<in> set (right r)"
    by blast
  have "split_polygon_by_line vertices Q N = Inr r"
    using assms r by (simp add: split_polygon_by_line_def)
  moreover have "\<forall>v \<in> set vertices. point_side_of_line v Q N = 0 \<longrightarrow>
              v \<in> set (left r) \<and> v \<in> set (right r)"
    using b by (auto simp add: in_set_conv_nth)
  ultimately show ?thesis by blast
qed

theorem boundary_vertex_in_both_witness:
  "3 \<le> length [\<lparr>x = 0, y = 0\<rparr>, \<lparr>x = 100, y = 0\<rparr>, \<lparr>x = 100, y = 100\<rparr>, \<lparr>x = 0, y = 100\<rparr>]
   \<and> \<lparr>x = 100, y = 0\<rparr> \<in> set [\<lparr>x = 0, y = 0\<rparr>, \<lparr>x = 100, y = 0\<rparr>, \<lparr>x = 100, y = 100\<rparr>, \<lparr>x = 0, y = 100\<rparr>]
   \<and> point_side_of_line \<lparr>x = 100, y = 0\<rparr> \<lparr>x = 50, y = 50\<rparr> \<lparr>x = 1, y = 1\<rparr> = 0
   \<and> (\<exists>r. split_polygon_by_line
             [\<lparr>x = 0, y = 0\<rparr>, \<lparr>x = 100, y = 0\<rparr>, \<lparr>x = 100, y = 100\<rparr>, \<lparr>x = 0, y = 100\<rparr>]
             \<lparr>x = 50, y = 50\<rparr> \<lparr>x = 1, y = 1\<rparr> = Inr r
          \<and> \<lparr>x = 100, y = 0\<rparr> \<in> set (left r) \<and> \<lparr>x = 100, y = 0\<rparr> \<in> set (right r))"
proof -
  let ?sq = "[\<lparr>x = 0, y = 0\<rparr>, \<lparr>x = 100, y = 0\<rparr>, \<lparr>x = 100, y = 100\<rparr>, \<lparr>x = 0, y = 100\<rparr>]"
  have len: "3 \<le> length ?sq" by simp
  have mem: "\<lparr>x = 100, y = 0\<rparr> \<in> set ?sq" by simp
  have side: "point_side_of_line \<lparr>x = 100, y = 0\<rparr> \<lparr>x = 50, y = 50\<rparr> \<lparr>x = 1, y = 1\<rparr> = 0"
    by (simp add: point_side_of_line_def dot_def Vector2_sub_def EPSILON_def)
  from boundary_vertex_in_both [OF len, of "\<lparr>x = 50, y = 50\<rparr>" "\<lparr>x = 1, y = 1\<rparr>"] mem side
  have "\<exists>r. split_polygon_by_line ?sq \<lparr>x = 50, y = 50\<rparr> \<lparr>x = 1, y = 1\<rparr> = Inr r
          \<and> \<lparr>x = 100, y = 0\<rparr> \<in> set (left r) \<and> \<lparr>x = 100, y = 0\<rparr> \<in> set (right r)"
    by blast
  with len mem side show ?thesis by blast
qed

text \<open>
  Claim C10. For a polygon with at least 3 vertices, if every vertex is classified +1 then
  \<open>left\<close> is the input sequence in its order and \<open>right\<close> and \<open>intersections\<close> are empty;
  if every vertex is classified -1 then \<open>right\<close> is the input sequence and \<open>left\<close> and
  \<open>intersections\<close> are empty.
\<close>

theorem split_one_sided:
  assumes "3 \<le> length vertices"
  shows "((\<forall>v \<in> set vertices. point_side_of_line v Q N = 1) \<longrightarrow>
           split_polygon_by_line vertices Q N =
             Inr \<lparr>left = vertices, right = [], intersections = []\<rparr>)
       \<and> ((\<forall>v \<in> set vertices. point_side_of_line v Q N = - 1) \<longrightarrow>
           split_polygon_by_line vertices Q N =
             Inr \<lparr>left = [], right = vertices, intersections = []\<rparr>)"
  using assms
  by (auto simp add: split_polygon_by_line_def split_loop_all_pos split_loop_all_neg map_nth)

theorem split_one_sided_witness:
  "3 \<le> length [\<lparr>x = 0, y = 0\<rparr>, \<lparr>x = 100, y = 0\<rparr>, \<lparr>x = 50, y = 100\<rparr>]
   \<and> list_all (\<lambda>v. point_side_of_line v \<lparr>x = - 10, y = 0\<rparr> \<lparr>x = 1, y = 0\<rparr> = 1)
         [\<lparr>x = 0, y = 0\<rparr>, \<lparr>x = 100, y = 0\<rparr>, \<lparr>x = 50, y = 100\<rparr>]
   \<and> split_polygon_by_line [\<lparr>x = 0, y = 0\<rparr>, \<lparr>x = 100, y = 0\<rparr>, \<lparr>x = 50, y = 100\<rparr>]
         \<lparr>x = - 10, y = 0\<rparr> \<lparr>x = 1, y = 0\<rparr>
       = Inr \<lparr>left = [\<lparr>x = 0, y = 0\<rparr>, \<lparr>x = 100, y = 0\<rparr>, \<lparr>x = 50, y = 100\<rparr>],
              right = [], intersections = []\<rparr>
   \<and> list_all (\<lambda>v. point_side_of_line v \<lparr>x = - 10, y = 0\<rparr> \<lparr>x = - 1, y = 0\<rparr> = - 1)
         [\<lparr>x = 0, y = 0\<rparr>, \<lparr>x = 100, y = 0\<rparr>, \<lparr>x = 50, y = 100\<rparr>]
   \<and> split_polygon_by_line [\<lparr>x = 0, y = 0\<rparr>, \<lparr>x = 100, y = 0\<rparr>, \<lparr>x = 50, y = 100\<rparr>]
         \<lparr>x = - 10, y = 0\<rparr> \<lparr>x = - 1, y = 0\<rparr>
       = Inr \<lparr>left = [],
              right = [\<lparr>x = 0, y = 0\<rparr>, \<lparr>x = 100, y = 0\<rparr>, \<lparr>x = 50, y = 100\<rparr>],
              intersections = []\<rparr>"
proof -
  let ?tri = "[\<lparr>x = 0, y = 0\<rparr>, \<lparr>x = 100, y = 0\<rparr>, \<lparr>x = 50, y = 100\<rparr>]"
  have len: "3 \<le> length ?tri" by simp
  have pos: "\<forall>v \<in> set ?tri. point_side_of_line v \<lparr>x = - 10, y = 0\<rparr> \<lparr>x = 1, y = 0\<rparr> = 1"
    by (simp add: point_side_of_line_def dot_def Vector2_sub_def EPSILON_def)
  have neg: "\<forall>v \<in> set ?tri. point_side_of_line v \<lparr>x = - 10, y = 0\<rparr> \<lparr>x = - 1, y = 0\<rparr> = - 1"
    by (simp add: point_side_of_line_def dot_def Vector2_sub_def EPSILON_def)
  from split_one_sided [OF len, of "\<lparr>x = - 10, y = 0\<rparr>" "\<lparr>x = 1, y = 0\<rparr>"] pos
  have a: "split_polygon_by_line ?tri \<lparr>x = - 10, y = 0\<rparr> \<lparr>x = 1, y = 0\<rparr>
             = Inr \<lparr>left = ?tri, right = [], intersections = []\<rparr>"
    by blast
  from split_one_sided [OF len, of "\<lparr>x = - 10, y = 0\<rparr>" "\<lparr>x = - 1, y = 0\<rparr>"] neg
  have b: "split_polygon_by_line ?tri \<lparr>x = - 10, y = 0\<rparr> \<lparr>x = - 1, y = 0\<rparr>
             = Inr \<lparr>left = [], right = ?tri, intersections = []\<rparr>"
    by blast
  from pos have pos': "list_all (\<lambda>v. point_side_of_line v \<lparr>x = - 10, y = 0\<rparr> \<lparr>x = 1, y = 0\<rparr> = 1) ?tri"
    by (simp only: list_all_iff)
  from neg have neg': "list_all (\<lambda>v. point_side_of_line v \<lparr>x = - 10, y = 0\<rparr> \<lparr>x = - 1, y = 0\<rparr> = - 1) ?tri"
    by (simp only: list_all_iff)
  from len pos' neg' a b show ?thesis by blast
qed

subsection \<open>Fewer than three vertices\<close>

text \<open>
  Claim C8. For every input with fewer than 3 vertices, \<open>polygon_area\<close> returns 0 and
  \<open>split_polygon_by_line\<close> returns (without raising) a result whose three sequences
  \<open>left\<close>, \<open>right\<close> and \<open>intersections\<close> are empty.
\<close>

theorem degenerate_inputs:
  assumes "length vertices < 3"
  shows "polygon_area vertices = 0
     \<and> split_polygon_by_line vertices Q N = Inr \<lparr>left = [], right = [], intersections = []\<rparr>"
  using assms by (simp add: polygon_area_def split_polygon_by_line_def)

theorem degenerate_inputs_witness:
  "length [\<lparr>x = 0, y = 0\<rparr>, \<lparr>x = 100, y = 0\<rparr>] < 3
   \<and> polygon_area [\<lparr>x = 0, y = 0\<rparr>, \<lparr>x = 100, y = 0\<rparr>] = 0
   \<and> split_polygon_by_line [\<lparr>x = 0, y = 0\<rparr>, \<lparr>x = 100, y = 0\<rparr>] \<lparr>x = 50, y = 0\<rparr> \<lparr>x = 1, y = 0\<rparr>
       = Inr \<lparr>left = [], right = [], intersections = []\<rparr>"
proof -
  have len: "length [\<lparr>x = 0, y = 0\<rparr>, \<lparr>x = 100, y = 0\<rparr>] < 3" by simp
  from len degenerate_inputs [OF len, of "\<lparr>x = 50, y = 0\<rparr>" "\<lparr>x = 1, y = 0\<rparr>"]
  show ?thesis by blast
qed

section \<open>Area conservation across a split\<close>

subsection \<open>Evaluation of the tested splits and of the notched rectangle\<close>














subsection \<open>The tested splits conserve the area; the notched rectangle does not\<close>



end
